theory Spec2Isabelle
  imports Main "HOL-Library.Multiset"
begin

section \<open>Python values\<close>

text \<open>
  The notebook \<^verbatim>\<open>notebooks/model_performance.ipynb\<close> defines two functions of its own,
  \<^verbatim>\<open>cat_var\<close> and \<^verbatim>\<open>ordinal_encoding\<close>. Every exception they can raise is a value of
  \<open>error\<close>; a function that can raise returns \<open>error + 'a\<close> with \<open>Inl\<close> the exception.
\<close>

datatype error = KeyError string | IndexError | TypeError

text \<open>
  A Python \<^verbatim>\<open>str\<close> is a sequence of Unicode code points; a character is a string of
  length one. \<^verbatim>\<open>ord\<close> raises \<^verbatim>\<open>TypeError\<close> on a string of any other length.
\<close>

type_synonym py_str = "nat list"

definition py_ord :: "py_str \<Rightarrow> error + int" where
  "py_ord x = (case x of [c] \<Rightarrow> Inr (int c) | _ \<Rightarrow> Inl TypeError)"

section \<open>The ordinal encoding helper\<close>

text \<open>
  \<^verbatim>\<open>
  def ordinal_encoding(x):
      if x == '?':
          return 27
      return ord(x) - 96
  \<close>
  The question mark is code point 63.
\<close>

definition ordinal_encoding :: "py_str \<Rightarrow> error + int" where
  "ordinal_encoding x =
     (if x = [of_char (CHR ''?'')] then Inr 27
      else case py_ord x of Inl e \<Rightarrow> Inl e | Inr n \<Rightarrow> Inr (n - 96))"

section \<open>Tables and summary rows\<close>

text \<open>
  A table (a pandas \<^verbatim>\<open>DataFrame\<close> with unique column labels, as \<^verbatim>\<open>read_csv\<close> builds
  it) maps a column label to the column's raw values. The type \<open>'v\<close> of raw values is
  arbitrary: an encoding of a missing marker is one more value of it.
\<close>

type_synonym 'v table = "string \<rightharpoonup> 'v list"

text \<open>\<^verbatim>\<open>df[col]\<close>: the column, or \<^verbatim>\<open>KeyError\<close> for a label the table does not have.\<close>

definition getitem :: "'v table \<Rightarrow> string \<Rightarrow> error + 'v list" where
  "getitem df col = (case df col of None \<Rightarrow> Inl (KeyError col) | Some s \<Rightarrow> Inr s)"

text \<open>
  \<^verbatim>\<open>Series.unique()\<close> is the library's hash-table pass: it walks the column once and
  keeps a value the first time it is seen, so the uniques come in order of appearance.
\<close>

fun unique_from :: "'v list \<Rightarrow> 'v list \<Rightarrow> 'v list" where
  "unique_from seen [] = rev seen"
| "unique_from seen (x # xs) =
     (if x \<in> set seen then unique_from seen xs else unique_from (x # seen) xs)"

definition unique :: "'v list \<Rightarrow> 'v list" where
  "unique xs = unique_from [] xs"

text \<open>
  The dictionary \<^verbatim>\<open>cat_dict\<close> that the loop of \<^verbatim>\<open>cat_var\<close> builds for one column. Its
  key \<^verbatim>\<open>"values"\<close> is the field \<open>cat_values\<close>.
\<close>

record 'v cat_dict =
  categorical_variable :: string
  number_of_possible_values :: int
  cat_values :: "'v list"

text \<open>
  \<^verbatim>\<open>
  cat_list = []
  for col in cols:
      cat = df[col].unique()
      cat_num = len(cat)
      cat_dict = {"categorical_variable":col,
                  "number_of_possible_values":cat_num,
                  "values":cat}
      cat_list.append(cat_dict)
  \<close>
  The loop, with \<^verbatim>\<open>cat_list\<close> as its accumulator. A missing column raises out of the
  loop and the rows collected so far are lost.
\<close>

fun cat_var_loop :: "'v table \<Rightarrow> string list \<Rightarrow> 'v cat_dict list \<Rightarrow> error + 'v cat_dict list" where
  "cat_var_loop df [] cat_list = Inr cat_list"
| "cat_var_loop df (col # cols) cat_list =
     (case getitem df col of
        Inl e \<Rightarrow> Inl e
      | Inr s \<Rightarrow>
          (let cat = unique s;
               cat_num = int (length cat);
               cat_dict = \<lparr>categorical_variable = col,
                           number_of_possible_values = cat_num,
                           cat_values = cat\<rparr>
           in cat_var_loop df cols (cat_list @ [cat_dict])))"

section \<open>The data frame of summary rows\<close>

text \<open>
  A frame of summary rows is the list of its rows, each with its index label.
  \<^verbatim>\<open>pd.DataFrame(cat_list)\<close> labels the rows \<open>0, 1, \<dots>\<close>; built from the empty list it
  has no rows and no columns at all.
\<close>

type_synonym 'v frame = "(nat \<times> 'v cat_dict) list"

definition DataFrame :: "'v cat_dict list \<Rightarrow> 'v frame" where
  "DataFrame cat_list = zip [0..<length cat_list] cat_list"

text \<open>
  \<^verbatim>\<open>take\<close> picks the rows at the given positions, in that order, and raises
  \<^verbatim>\<open>IndexError\<close> for a position outside the frame.
\<close>

definition take_rows :: "'v frame \<Rightarrow> nat list \<Rightarrow> error + 'v frame" where
  "take_rows fr indexer =
     (if list_all (\<lambda>i. i < length fr) indexer then Inr (map (\<lambda>i. fr ! i) indexer)
      else Inl IndexError)"

text \<open>
  \<^verbatim>\<open>sort_values(by="number_of_possible_values", ascending=False)\<close>, with the default
  \<^verbatim>\<open>kind='quicksort'\<close>. A frame without the column \<^verbatim>\<open>number_of_possible_values\<close> (the
  frame built from an empty \<^verbatim>\<open>cat_list\<close>) raises \<^verbatim>\<open>KeyError\<close>. Otherwise pandas computes
  an indexer from the key column with its \<^verbatim>\<open>nargsort\<close> and takes the rows at it.
  \<^verbatim>\<open>nargsort\<close> is library code (numpy's \<^verbatim>\<open>argsort\<close> underneath); it is the parameter
  \<open>nargsort\<close> here, from the keys to the positions in their new order.
\<close>

definition sort_values :: "(int list \<Rightarrow> nat list) \<Rightarrow> 'v frame \<Rightarrow> error + 'v frame" where
  "sort_values nargsort fr =
     (if fr = [] then Inl (KeyError ''number_of_possible_values'')
      else take_rows fr (nargsort (map (\<lambda>r. number_of_possible_values (snd r)) fr)))"

text \<open>\<^verbatim>\<open>reset_index(drop=True)\<close>: the same rows in the same order, labelled \<open>0, 1, \<dots>\<close> anew.\<close>

definition reset_index :: "'v frame \<Rightarrow> 'v frame" where
  "reset_index fr = zip [0..<length fr] (map snd fr)"

section \<open>The categorical data analyser\<close>

text \<open>
  \<^verbatim>\<open>
  def cat_var(df, cols):
      cat_list = []
      for col in cols:
          ...
      df = pd.DataFrame(cat_list).sort_values(by="number_of_possible_values", ascending=False)
      return df.reset_index(drop=True)
  \<close>
\<close>

definition cat_var :: "(int list \<Rightarrow> nat list) \<Rightarrow> 'v table \<Rightarrow> string list \<Rightarrow> error + 'v frame" where
  "cat_var nargsort df cols =
     (case cat_var_loop df cols [] of
        Inl e \<Rightarrow> Inl e
      | Inr cat_list \<Rightarrow>
          (case sort_values nargsort (DataFrame cat_list) of
             Inl e \<Rightarrow> Inl e
           | Inr sorted_df \<Rightarrow> Inr (reset_index sorted_df)))"

text \<open>The rows of a frame without their index labels.\<close>

definition rows_of :: "'v frame \<Rightarrow> 'v cat_dict list" where
  "rows_of fr = map snd fr"

section \<open>The library's sort\<close>

text \<open>
  What pandas documents of \<^verbatim>\<open>nargsort\<close> with \<^verbatim>\<open>ascending=False\<close>, for every kind of sort:
  the indexer is a permutation of the positions, and the keys read along it descend.
  The default kind, \<^verbatim>\<open>quicksort\<close>, is documented as not stable, so the contract says
  nothing on the order of equal keys.
\<close>

definition nargsort_descending :: "(int list \<Rightarrow> nat list) \<Rightarrow> bool" where
  "nargsort_descending nargsort =
     (\<forall>ks. mset (nargsort ks) = mset [0..<length ks]
          \<and> sorted_wrt (\<lambda>a b. a \<ge> b) (map (\<lambda>i. ks ! i) (nargsort ks)))"

text \<open>
  One instance, \<^verbatim>\<open>nargsort\<close> as pandas runs it with a stable kind: reverse the keys and
  their positions, sort the positions by key with a stable ascending sort, reverse the
  result.
\<close>

definition nargsort_stable :: "int list \<Rightarrow> nat list" where
  "nargsort_stable ks = rev (map snd (sort_key fst (rev (zip ks [0..<length ks]))))"

text \<open>
  A second instance: an ascending stable sort of the positions by key, reversed as a
  whole. The keys descend, and equal keys come out in the reverse of their input order.
\<close>

definition nargsort_ties_reversed :: "int list \<Rightarrow> nat list" where
  "nargsort_ties_reversed ks = rev (map snd (sort_key fst (zip ks [0..<length ks])))"

section \<open>The call on Python's object heap\<close>

text \<open>
  To speak of what a call of \<^verbatim>\<open>cat_var\<close> writes, the objects live in a heap: a list of
  objects, an address being a position in it. The caller's table and its list of column
  names are objects of the heap; \<^verbatim>\<open>cat_list\<close> and the three frames the call builds are
  new objects, appended to it.
\<close>

datatype 'v obj =
    Table "'v table"
  | StrList "string list"
  | DictList "'v cat_dict list"
  | Frame "'v frame"

type_synonym 'v heap = "'v obj list"

definition alloc :: "'v heap \<Rightarrow> 'v obj \<Rightarrow> nat \<times> 'v heap" where
  "alloc h ob = (length h, h @ [ob])"

definition deref :: "'v heap \<Rightarrow> nat \<Rightarrow> 'v obj option" where
  "deref h a = (if a < length h then Some (h ! a) else None)"

text \<open>
  The loop on the heap. \<^verbatim>\<open>df[col]\<close> reads the table at the address \<open>df\<close> in every round;
  \<^verbatim>\<open>cat_list.append(cat_dict)\<close> is the one write of the whole function, into the list
  at the address \<open>cat_list\<close>. The names \<open>col # cols\<close> are the items that the iterator
  over the caller's list still has to yield. An argument that is not the kind of
  object the code uses it as raises, here \<^verbatim>\<open>TypeError\<close>.
\<close>

fun cat_var_loop_heap :: "'v heap \<Rightarrow> nat \<Rightarrow> string list \<Rightarrow> nat \<Rightarrow> error option \<times> 'v heap" where
  "cat_var_loop_heap h df [] cat_list = (None, h)"
| "cat_var_loop_heap h df (col # cols) cat_list =
     (case deref h df of
        Some (Table t) \<Rightarrow>
          (case getitem t col of
             Inl e \<Rightarrow> (Some e, h)
           | Inr s \<Rightarrow>
               (let cat = unique s;
                    cat_num = int (length cat);
                    cat_dict = \<lparr>categorical_variable = col,
                                number_of_possible_values = cat_num,
                                cat_values = cat\<rparr>
                in case deref h cat_list of
                     Some (DictList ds) \<Rightarrow>
                       cat_var_loop_heap (h[cat_list := DictList (ds @ [cat_dict])]) df cols cat_list
                   | _ \<Rightarrow> (Some TypeError, h)))
      | _ \<Rightarrow> (Some TypeError, h))"

text \<open>
  The whole call: it returns the exception or the address of the frame it returns,
  and the heap it leaves. The assignment \<^verbatim>\<open>df = pd.DataFrame(cat_list).sort_values(...)\<close>
  rebinds the local name \<^verbatim>\<open>df\<close> to the address of the sorted frame; neither
  \<^verbatim>\<open>sort_values\<close> nor \<^verbatim>\<open>reset_index\<close> is called with \<^verbatim>\<open>inplace=True\<close>, so each allocates
  its result.
\<close>

definition cat_var_heap ::
  "(int list \<Rightarrow> nat list) \<Rightarrow> 'v heap \<Rightarrow> nat \<Rightarrow> nat \<Rightarrow> (error + nat) \<times> 'v heap" where
  "cat_var_heap nargsort h df cols =
     (let (cat_list, h1) = alloc h (DictList []) in
      case deref h1 cols of
        Some (StrList cs) \<Rightarrow>
          (case cat_var_loop_heap h1 df cs cat_list of
             (Some e, h2) \<Rightarrow> (Inl e, h2)
           | (None, h2) \<Rightarrow>
               (case deref h2 cat_list of
                  Some (DictList ds) \<Rightarrow>
                    (let (unsorted_df, h3) = alloc h2 (Frame (DataFrame ds)) in
                     case sort_values nargsort (DataFrame ds) of
                       Inl e \<Rightarrow> (Inl e, h3)
                     | Inr sorted_df \<Rightarrow>
                         (let (df', h4) = alloc h3 (Frame sorted_df);
                              (result, h5) = alloc h4 (Frame (reset_index sorted_df))
                          in (Inr result, h5)))
                | _ \<Rightarrow> (Inl TypeError, h2)))
      | _ \<Rightarrow> (Inl TypeError, h1))"

text \<open>What the caller gets: the exception, or the frame at the returned address.\<close>

definition outcome :: "'v heap \<Rightarrow> error + nat \<Rightarrow> error + 'v frame" where
  "outcome h r =
     (case r of
        Inl e \<Rightarrow> Inl e
      | Inr a \<Rightarrow> (case deref h a of Some (Frame fr) \<Rightarrow> Inr fr | _ \<Rightarrow> Inl TypeError))"

definition cat_var_call ::
  "(int list \<Rightarrow> nat list) \<Rightarrow> 'v heap \<Rightarrow> nat \<Rightarrow> nat \<Rightarrow> error + 'v frame" where
  "cat_var_call nargsort h df cols =
     (case cat_var_heap nargsort h df cols of (res, h') \<Rightarrow> outcome h' res)"

text \<open>The row that one round of the loop builds, from the column's label and its values.\<close>

definition summary_row :: "string \<Rightarrow> 'v list \<Rightarrow> 'v cat_dict" where
  "summary_row col s = \<lparr>categorical_variable = col,
                         number_of_possible_values = int (length (unique s)),
                         cat_values = unique s\<rparr>"

section \<open>Sample data\<close>

text \<open>
  A small table in the shape of the mushroom data: a column \<^verbatim>\<open>odor\<close> with the values
  \<^verbatim>\<open>n, f, n, y\<close> and a column \<^verbatim>\<open>bruises\<close> with \<^verbatim>\<open>t, f\<close>; its summary; and a heap that
  holds it with two lists of column names.
\<close>

definition mushrooms_sample :: "char table" where
  "mushrooms_sample = [''odor'' \<mapsto> ''nfny'', ''bruises'' \<mapsto> ''tf'']"

definition sample_summary :: "char frame" where
  "sample_summary =
     [(0, \<lparr>categorical_variable = ''odor'', number_of_possible_values = 3,
           cat_values = ''nfy''\<rparr>),
      (1, \<lparr>categorical_variable = ''bruises'', number_of_possible_values = 2,
           cat_values = ''tf''\<rparr>)]"

definition sample_heap :: "char heap" where
  "sample_heap =
     [StrList [''bruises'', ''odor''], Table mushrooms_sample, StrList [''odor'', ''veil'']]"

definition sample_heap_after :: "char heap" where
  "sample_heap_after = sample_heap @
     [DictList [\<lparr>categorical_variable = ''bruises'', number_of_possible_values = 2,
                 cat_values = ''tf''\<rparr>,
                \<lparr>categorical_variable = ''odor'', number_of_possible_values = 3,
                 cat_values = ''nfy''\<rparr>],
      Frame [(0, \<lparr>categorical_variable = ''bruises'', number_of_possible_values = 2,
                  cat_values = ''tf''\<rparr>),
             (1, \<lparr>categorical_variable = ''odor'', number_of_possible_values = 3,
                  cat_values = ''nfy''\<rparr>)],
      Frame [(1, \<lparr>categorical_variable = ''odor'', number_of_possible_values = 3,
                  cat_values = ''nfy''\<rparr>),
             (0, \<lparr>categorical_variable = ''bruises'', number_of_possible_values = 2,
                  cat_values = ''tf''\<rparr>)],
      Frame sample_summary]"


section \<open>Unique values\<close>

lemma set_unique_from: "set (unique_from seen xs) = set seen \<union> set xs"
  by (induction xs arbitrary: seen) auto

lemma distinct_unique_from: "distinct seen \<Longrightarrow> distinct (unique_from seen xs)"
  by (induction xs arbitrary: seen) auto

lemma set_unique: "set (unique xs) = set xs"
  by (simp add: unique_def set_unique_from)

lemma distinct_unique: "distinct (unique xs)"
  by (simp add: unique_def distinct_unique_from)

lemma length_unique: "length (unique xs) = card (set xs)"
  using distinct_card [OF distinct_unique, of xs] by (simp add: set_unique)

section \<open>The loop\<close>

lemma cat_var_loop_present:
  "set cols \<subseteq> dom df \<Longrightarrow>
   cat_var_loop df cols acc = Inr (acc @ map (\<lambda>c. summary_row c (the (df c))) cols)"
  by (induction cols arbitrary: acc) (auto simp: getitem_def summary_row_def Let_def)

lemma cat_var_loop_absent:
  "\<not> set cols \<subseteq> dom df \<Longrightarrow>
   \<exists>c. c \<in> set cols \<and> df c = None \<and> cat_var_loop df cols acc = Inl (KeyError c)"
proof (induction cols arbitrary: acc)
  case Nil
  then show ?case by simp
next
  case (Cons col cols)
  show ?case
  proof (cases "df col")
    case None
    then show ?thesis by (auto simp: getitem_def)
  next
    case (Some s)
    with Cons.prems have "\<not> set cols \<subseteq> dom df" by auto
    from Cons.IH [OF this] Some show ?thesis by (fastforce simp: getitem_def Let_def)
  qed
qed

lemma cat_var_loop_Inr:
  assumes "cat_var_loop df cols acc = Inr rows"
  shows "set cols \<subseteq> dom df \<and> rows = acc @ map (\<lambda>c. summary_row c (the (df c))) cols"
proof (cases "set cols \<subseteq> dom df")
  case True
  with assms cat_var_loop_present [OF True, of acc] show ?thesis by simp
next
  case False
  from cat_var_loop_absent [OF False, of acc] assms show ?thesis by auto
qed

section \<open>Frames\<close>

lemma rows_of_DataFrame: "rows_of (DataFrame rows) = rows"
  by (simp add: rows_of_def DataFrame_def)

lemma map_snd_DataFrame: "map (\<lambda>r. f (snd r)) (DataFrame rows) = map f rows"
proof -
  have "map (\<lambda>r. f (snd r)) (DataFrame rows) = map f (map snd (DataFrame rows))" by simp
  also have "\<dots> = map f rows" by (simp add: DataFrame_def)
  finally show ?thesis .
qed

lemma length_DataFrame: "length (DataFrame rows) = length rows"
  by (simp add: DataFrame_def)

lemma rows_of_reset_index: "rows_of (reset_index fr) = rows_of fr"
  by (simp add: rows_of_def reset_index_def)

lemma labels_reset_index: "map fst (reset_index fr) = [0..<length fr]"
  by (simp add: reset_index_def)

lemma take_rows_Inr:
  assumes "take_rows fr ix = Inr fr'"
  shows "list_all (\<lambda>i. i < length fr) ix \<and> fr' = map (\<lambda>i. fr ! i) ix"
  using assms by (auto simp: take_rows_def split: if_splits)

lemma mset_map_nth_perm:
  assumes "mset ix = mset [0..<length xs]"
  shows "mset (map (\<lambda>i. xs ! i) ix) = mset xs"
proof -
  have "mset (map (\<lambda>i. xs ! i) ix) = image_mset (\<lambda>i. xs ! i) (mset ix)" by simp
  also have "\<dots> = image_mset (\<lambda>i. xs ! i) (mset [0..<length xs])" by (simp only: assms)
  also have "\<dots> = mset (map (\<lambda>i. xs ! i) [0..<length xs])" by simp
  also have "\<dots> = mset xs" by (simp only: map_nth)
  finally show ?thesis .
qed

lemma perm_in_range:
  assumes "mset ix = mset [0..<n]"
  shows "list_all (\<lambda>i. i < n) ix"
proof -
  have "set ix = set [0..<n]" using assms by (rule mset_eq_setD)
  then show ?thesis by (auto simp: list_all_iff)
qed

section \<open>What \<open>cat_var\<close> returns\<close>

text \<open>
  When \<open>cat_var\<close> returns a frame, the list of names was not empty, every name is a
  column of the table, and the rows are the summary rows of the names at the positions
  of the indexer, labelled from zero.
\<close>

lemma cat_var_Inr:
  assumes "cat_var srt df cols = Inr fr"
  shows "\<exists>ix. cols \<noteq> [] \<and> set cols \<subseteq> dom df
           \<and> ix = srt (map (\<lambda>c. number_of_possible_values (summary_row c (the (df c)))) cols)
           \<and> list_all (\<lambda>i. i < length cols) ix
           \<and> rows_of fr = map (\<lambda>i. summary_row (cols ! i) (the (df (cols ! i)))) ix
           \<and> map fst fr = [0..<length ix]"
proof -
  from assms obtain cat_list sorted_df where
    l: "cat_var_loop df cols [] = Inr cat_list" and
    s: "sort_values srt (DataFrame cat_list) = Inr sorted_df" and
    f: "fr = reset_index sorted_df"
    by (auto simp: cat_var_def split: sum.splits)
  from cat_var_loop_Inr [OF l] have
    p: "set cols \<subseteq> dom df" and c: "cat_list = map (\<lambda>c. summary_row c (the (df c))) cols"
    by auto
  let ?F = "DataFrame cat_list"
  let ?ix = "srt (map (\<lambda>r. number_of_possible_values (snd r)) ?F)"
  from s have ne: "?F \<noteq> []" and t: "take_rows ?F ?ix = Inr sorted_df"
    by (auto simp: sort_values_def split: if_splits)
  from ne have cne: "cols \<noteq> []" by (auto simp: DataFrame_def c)
  have keys: "map (\<lambda>r. number_of_possible_values (snd r)) ?F
              = map (\<lambda>c. number_of_possible_values (summary_row c (the (df c)))) cols"
    by (simp add: map_snd_DataFrame c)
  from take_rows_Inr [OF t] have
    r: "list_all (\<lambda>i. i < length ?F) ?ix" and sd: "sorted_df = map (\<lambda>i. ?F ! i) ?ix" by auto
  have len: "length ?F = length cols" by (simp add: length_DataFrame c)
  have "rows_of fr = map (\<lambda>i. snd (?F ! i)) ?ix"
    by (simp add: f rows_of_reset_index) (simp add: rows_of_def sd)
  also have "\<dots> = map (\<lambda>i. summary_row (cols ! i) (the (df (cols ! i)))) ?ix"
  proof (rule map_cong [OF refl])
    fix i assume "i \<in> set ?ix"
    with r len have "i < length cols" by (auto simp: list_all_iff)
    then show "snd (?F ! i) = summary_row (cols ! i) (the (df (cols ! i)))"
      by (simp add: DataFrame_def c)
  qed
  finally have rows:
    "rows_of fr = map (\<lambda>i. summary_row (cols ! i) (the (df (cols ! i)))) ?ix" .
  have lab: "map fst fr = [0..<length ?ix]"
    by (simp add: f labels_reset_index sd)
  from cne p r rows lab show ?thesis unfolding keys len by blast
qed

lemma cat_var_returns:
  assumes "cols \<noteq> []" and "set cols \<subseteq> dom df"
    and "list_all (\<lambda>i. i < length cols)
           (srt (map (\<lambda>c. number_of_possible_values (summary_row c (the (df c)))) cols))"
  shows "\<exists>fr. cat_var srt df cols = Inr fr"
proof -
  let ?cl = "map (\<lambda>c. summary_row c (the (df c))) cols"
  have l: "cat_var_loop df cols [] = Inr ?cl"
    using cat_var_loop_present [OF assms(2), of "[]"] by simp
  have keys: "map (\<lambda>r. number_of_possible_values (snd r)) (DataFrame ?cl)
              = map (\<lambda>c. number_of_possible_values (summary_row c (the (df c)))) cols"
    by (simp add: map_snd_DataFrame)
  have ne: "DataFrame ?cl \<noteq> []" using assms(1) by (simp add: DataFrame_def)
  show ?thesis
    using assms(3) ne
    by (simp add: cat_var_def l sort_values_def keys take_rows_def length_DataFrame)
qed

section \<open>The two sorts meet the library's contract\<close>

lemma zip_upt_key: "p \<in> set (zip ks [0..<length ks]) \<Longrightarrow> ks ! snd p = fst p"
  by (cases p) (auto simp: set_zip)

lemma rev_sort_descending:
  fixes ks :: "int list"
  assumes "mset z = mset (zip ks [0..<length ks])"
  shows "mset (rev (map snd (sort_key fst z))) = mset [0..<length ks]"
    and "sorted_wrt (\<lambda>a b. a \<ge> b) (map (\<lambda>i. ks ! i) (rev (map snd (sort_key fst z))))"
proof -
  let ?s = "sort_key fst z"
  have m: "mset ?s = mset (zip ks [0..<length ks])" using assms by simp
  then have "image_mset snd (mset ?s) = image_mset snd (mset (zip ks [0..<length ks]))"
    by (rule arg_cong)
  then have "mset (map snd ?s) = mset (map snd (zip ks [0..<length ks]))"
    by (simp only: mset_map)
  also have "\<dots> = mset [0..<length ks]" by (simp only: map_snd_zip length_upt diff_zero)
  finally show "mset (rev (map snd ?s)) = mset [0..<length ks]" by (simp only: mset_rev)
  have "set ?s = set (zip ks [0..<length ks])" using m by (rule mset_eq_setD)
  then have "map (\<lambda>p. ks ! snd p) ?s = map fst ?s"
    by (intro map_cong [OF refl]) (simp add: zip_upt_key)
  then have "map (\<lambda>i. ks ! i) (rev (map snd ?s)) = rev (map fst ?s)"
    by (simp add: rev_map comp_def)
  moreover have "sorted (map fst ?s)" by (rule sorted_sort_key)
  ultimately show "sorted_wrt (\<lambda>a b. a \<ge> b) (map (\<lambda>i. ks ! i) (rev (map snd ?s)))"
    by (simp add: sorted_wrt_rev)
qed

lemma nargsort_stable_descending: "nargsort_descending nargsort_stable"
  unfolding nargsort_descending_def nargsort_stable_def
  by (intro allI conjI rev_sort_descending) simp_all

lemma nargsort_ties_reversed_descending: "nargsort_descending nargsort_ties_reversed"
  unfolding nargsort_descending_def nargsort_ties_reversed_def
  by (intro allI conjI rev_sort_descending) simp_all

text \<open>
  The two sorts agree on keys that differ and disagree on equal keys: the contract
  leaves the order of equal keys open.
\<close>

lemma nargsort_equal_keys:
  "nargsort_stable [2, 2, 3] = [2, 0, 1]" "nargsort_ties_reversed [2, 2, 3] = [2, 1, 0]"
  by code_simp+


section \<open>The summary has one row for each requested column\<close>

text \<open>
  Claim C1, as stated, for every list of column names: \<open>cat_var\<close> returns a sequence
  of as many rows as there are names. It fails for the empty list of names, whose names
  are all present in any table: the frame built from no rows has no column
  \<^verbatim>\<open>number_of_possible_values\<close> to sort by, and \<^verbatim>\<open>sort_values\<close> raises \<^verbatim>\<open>KeyError\<close>.
\<close>

theorem cat_var_empty_cols_counterexample:
  "cat_var nargsort_stable mushrooms_sample [] = Inl (KeyError ''number_of_possible_values'')"
  by (simp add: cat_var_def DataFrame_def sort_values_def)

text \<open>
  Claim C1, amended: for every table and every non-empty list of column names all of
  which are present in the table, \<open>cat_var\<close> returns a frame with exactly one row per
  input column name. Its length is the length of the list, and the names of its rows
  are the names of the list, each as often as the list has it: no row is added or
  dropped. (The sort is any \<open>nargsort\<close> that meets the library's contract.)
\<close>

theorem cat_var_one_row_per_column:
  assumes "nargsort_descending nargsort" and "cols \<noteq> []" and "set cols \<subseteq> dom df"
  shows "\<exists>fr. cat_var nargsort df cols = Inr fr
            \<and> length fr = length cols
            \<and> mset (map categorical_variable (rows_of fr)) = mset cols"
proof -
  let ?ks = "map (\<lambda>c. number_of_possible_values (summary_row c (the (df c)))) cols"
  from assms(1) have perm: "mset (nargsort ?ks) = mset [0..<length cols]"
    by (simp add: nargsort_descending_def)
  from cat_var_returns [of cols df nargsort, OF assms(2,3) perm_in_range [OF perm]]
  obtain fr where fr: "cat_var nargsort df cols = Inr fr" by blast
  from cat_var_Inr [OF fr] have
    rows: "rows_of fr = map (\<lambda>i. summary_row (cols ! i) (the (df (cols ! i)))) (nargsort ?ks)"
    by blast
  have "map categorical_variable (rows_of fr) = map (\<lambda>i. cols ! i) (nargsort ?ks)"
    by (simp add: rows summary_row_def)
  then have names: "mset (map categorical_variable (rows_of fr)) = mset cols"
    using mset_map_nth_perm [OF perm] by simp
  have "length fr = length (rows_of fr)" by (simp add: rows_of_def)
  also have "\<dots> = length (nargsort ?ks)" by (simp add: rows)
  also have "\<dots> = length cols" using mset_eq_length [OF perm] by simp
  finally have "length fr = length cols" .
  with fr names show ?thesis by blast
qed

theorem cat_var_one_row_per_column_witness:
  "nargsort_descending nargsort_stable
   \<and> [''bruises'', ''odor''] \<noteq> []
   \<and> set [''bruises'', ''odor''] \<subseteq> dom mushrooms_sample
   \<and> (\<exists>fr. cat_var nargsort_stable mushrooms_sample [''bruises'', ''odor''] = Inr fr
          \<and> length fr = length [''bruises'', ''odor'']
          \<and> mset (map categorical_variable (rows_of fr)) = mset [''bruises'', ''odor''])"
proof -
  have h2: "[''bruises'', ''odor''] \<noteq> []" by simp
  have h3: "set [''bruises'', ''odor''] \<subseteq> dom mushrooms_sample"
    by (simp add: mushrooms_sample_def)
  from cat_var_one_row_per_column [OF nargsort_stable_descending h2 h3]
    nargsort_stable_descending h2 h3
  show ?thesis by blast
qed

section \<open>The counts are exact\<close>

text \<open>
  Claim C2: for every table, every list of column names and every column \<open>c\<close> of the
  list, the summary that \<open>cat_var\<close> returns has a row for \<open>c\<close>, and the
  \<^verbatim>\<open>number_of_possible_values\<close> of every row for \<open>c\<close> is the number of distinct values in
  the column \<open>c\<close> of the table. Distinct is by equality of the raw values, whatever they
  encode: no value is set apart as missing.
\<close>

theorem cat_var_counts_exact:
  assumes "nargsort_descending nargsort" and "cat_var nargsort df cols = Inr fr"
    and "c \<in> set cols"
  shows "\<exists>s. df c = Some s
           \<and> (\<exists>r \<in> set (rows_of fr). categorical_variable r = c)
           \<and> (\<forall>r \<in> set (rows_of fr). categorical_variable r = c
                 \<longrightarrow> number_of_possible_values r = int (card (set s)))"
proof -
  let ?ks = "map (\<lambda>c. number_of_possible_values (summary_row c (the (df c)))) cols"
  from cat_var_Inr [OF assms(2)] have
    p: "set cols \<subseteq> dom df" and
    rows: "rows_of fr = map (\<lambda>i. summary_row (cols ! i) (the (df (cols ! i)))) (nargsort ?ks)"
    by blast+
  from p assms(3) obtain s where s: "df c = Some s" by auto
  from assms(1) have perm: "mset (nargsort ?ks) = mset [0..<length cols]"
    by (simp add: nargsort_descending_def)
  from assms(3) obtain j where j: "j < length cols" "cols ! j = c"
    by (auto simp: in_set_conv_nth)
  from mset_eq_setD [OF perm] j(1) have "j \<in> set (nargsort ?ks)" by simp
  then have "summary_row (cols ! j) (the (df (cols ! j))) \<in> set (rows_of fr)"
    unfolding rows by simp
  moreover have "categorical_variable (summary_row (cols ! j) (the (df (cols ! j)))) = c"
    using j(2) by (simp add: summary_row_def)
  ultimately have ex: "\<exists>r \<in> set (rows_of fr). categorical_variable r = c"
    by (rule rev_bexI)
  have "\<forall>r \<in> set (rows_of fr). categorical_variable r = c
          \<longrightarrow> number_of_possible_values r = int (card (set s))"
    using s by (auto simp: rows summary_row_def length_unique)
  with s ex show ?thesis by blast
qed

lemma sample_cat_var:
  "cat_var nargsort_stable mushrooms_sample [''bruises'', ''odor''] = Inr sample_summary"
  by code_simp

theorem cat_var_counts_exact_witness:
  "nargsort_descending nargsort_stable
   \<and> cat_var nargsort_stable mushrooms_sample [''bruises'', ''odor''] = Inr sample_summary
   \<and> ''odor'' \<in> set [''bruises'', ''odor'']
   \<and> (\<exists>s. mushrooms_sample ''odor'' = Some s
          \<and> (\<exists>r \<in> set (rows_of sample_summary). categorical_variable r = ''odor'')
          \<and> (\<forall>r \<in> set (rows_of sample_summary). categorical_variable r = ''odor''
                \<longrightarrow> number_of_possible_values r = int (card (set s))))"
proof -
  have h3: "''odor'' \<in> set [''bruises'', ''odor'']" by simp
  from cat_var_counts_exact [OF nargsort_stable_descending sample_cat_var h3]
    nargsort_stable_descending sample_cat_var h3
  show ?thesis by blast
qed

section \<open>The summary is sorted\<close>

text \<open>
  Claim C3: for every table and list of column names, the sequence that \<open>cat_var\<close>
  returns is sorted by distinct-value count in descending order: of any two adjacent
  rows, the first has a \<^verbatim>\<open>number_of_possible_values\<close> at least that of the second.
  (The sort is any \<open>nargsort\<close> that meets the library's contract.)
\<close>

theorem cat_var_sorted_descending:
  assumes "nargsort_descending nargsort" and "cat_var nargsort df cols = Inr fr"
    and "Suc i < length fr"
  shows "number_of_possible_values (rows_of fr ! i)
           \<ge> number_of_possible_values (rows_of fr ! Suc i)"
proof -
  let ?row = "\<lambda>i. summary_row (cols ! i) (the (df (cols ! i)))"
  let ?ks = "map (\<lambda>c. number_of_possible_values (summary_row c (the (df c)))) cols"
  let ?ix = "nargsort ?ks"
  from cat_var_Inr [OF assms(2)] have
    r: "list_all (\<lambda>i. i < length cols) ?ix" and
    rows: "rows_of fr = map ?row ?ix"
    by blast+
  have len: "length ?ix = length fr"
    using arg_cong [OF rows, of length] by (simp add: rows_of_def)
  have key: "number_of_possible_values (rows_of fr ! j) = ?ks ! (?ix ! j)"
    if "j < length fr" for j
  proof -
    from that len have "?ix ! j \<in> set ?ix" by simp
    with r have "?ix ! j < length cols" by (simp add: list_all_iff)
    with that len show ?thesis by (simp add: rows)
  qed
  from assms(1) have "sorted_wrt (\<lambda>a b. a \<ge> b) (map (\<lambda>i. ?ks ! i) ?ix)"
    by (simp add: nargsort_descending_def)
  then have "(map (\<lambda>i. ?ks ! i) ?ix) ! i \<ge> (map (\<lambda>i. ?ks ! i) ?ix) ! Suc i"
    using assms(3) len by (simp add: sorted_wrt_iff_nth_less del: nth_map)
  then have "?ks ! (?ix ! i) \<ge> ?ks ! (?ix ! Suc i)"
    using assms(3) len by simp
  with key [of i] key [of "Suc i"] assms(3) show ?thesis by simp
qed

theorem cat_var_sorted_descending_witness:
  "nargsort_descending nargsort_stable
   \<and> cat_var nargsort_stable mushrooms_sample [''bruises'', ''odor''] = Inr sample_summary
   \<and> Suc 0 < length sample_summary
   \<and> number_of_possible_values (rows_of sample_summary ! 0)
        \<ge> number_of_possible_values (rows_of sample_summary ! Suc 0)"
proof -
  have h3: "Suc 0 < length sample_summary" by (simp add: sample_summary_def)
  from cat_var_sorted_descending [OF nargsort_stable_descending sample_cat_var h3]
    nargsort_stable_descending sample_cat_var h3
  show ?thesis by blast
qed

section \<open>A missing column\<close>

text \<open>
  Claim C5: for every table and list of column names, if some name of the list is
  absent from the table then \<open>cat_var\<close> fails with a \<^verbatim>\<open>KeyError\<close> that names an absent
  column of the list, and returns no rows at all, whatever the sort: the missing
  column is never silently left out.
\<close>

theorem cat_var_missing_column_fails:
  assumes "\<not> set cols \<subseteq> dom df"
  shows "\<exists>c. c \<in> set cols \<and> df c = None \<and> cat_var nargsort df cols = Inl (KeyError c)"
proof -
  from cat_var_loop_absent [OF assms, of "[]"] obtain c where
    "c \<in> set cols" "df c = None" "cat_var_loop df cols [] = Inl (KeyError c)" by blast
  then show ?thesis by (auto simp: cat_var_def)
qed

theorem cat_var_missing_column_fails_witness:
  "\<not> set [''odor'', ''veil''] \<subseteq> dom mushrooms_sample
   \<and> (\<exists>c. c \<in> set [''odor'', ''veil''] \<and> mushrooms_sample c = None
          \<and> cat_var nargsort_stable mushrooms_sample [''odor'', ''veil''] = Inl (KeyError c))"
proof -
  have h: "\<not> set [''odor'', ''veil''] \<subseteq> dom mushrooms_sample"
    by (simp add: mushrooms_sample_def dom_def)
  from cat_var_missing_column_fails [OF h, of nargsort_stable] h
  show ?thesis by blast
qed

section \<open>Count and values agree\<close>

text \<open>
  Claim C9: in every row that \<open>cat_var\<close> returns, \<^verbatim>\<open>number_of_possible_values\<close> is the
  size of the row's collection of values, and the values are pairwise distinct, so it is
  also the size of the set of the values.
\<close>

theorem cat_var_count_matches_values:
  assumes "cat_var nargsort df cols = Inr fr" and "r \<in> set (rows_of fr)"
  shows "number_of_possible_values r = int (length (cat_values r))
         \<and> distinct (cat_values r)
         \<and> number_of_possible_values r = int (card (set (cat_values r)))"
proof -
  from cat_var_Inr [OF assms(1)] assms(2) obtain c s where "r = summary_row c s" by auto
  then show ?thesis by (simp add: summary_row_def distinct_unique length_unique set_unique)
qed

theorem cat_var_count_matches_values_witness:
  "cat_var nargsort_stable mushrooms_sample [''bruises'', ''odor''] = Inr sample_summary
   \<and> rows_of sample_summary ! 0 \<in> set (rows_of sample_summary)
   \<and> number_of_possible_values (rows_of sample_summary ! 0)
       = int (length (cat_values (rows_of sample_summary ! 0)))
   \<and> distinct (cat_values (rows_of sample_summary ! 0))
   \<and> number_of_possible_values (rows_of sample_summary ! 0)
       = int (card (set (cat_values (rows_of sample_summary ! 0))))"
proof -
  have h2: "rows_of sample_summary ! 0 \<in> set (rows_of sample_summary)"
    by (simp add: rows_of_def sample_summary_def)
  from cat_var_count_matches_values [OF sample_cat_var h2] sample_cat_var h2
  show ?thesis by blast
qed


section \<open>The call on the heap\<close>

text \<open>The loop keeps the size of the heap and writes at the address of \<^verbatim>\<open>cat_list\<close> only.\<close>

lemma cat_var_loop_heap_frame:
  "cat_var_loop_heap h df cs l = (e, h') \<Longrightarrow>
   length h' = length h \<and> (\<forall>a. a \<noteq> l \<longrightarrow> h' ! a = h ! a)"
proof (induction cs arbitrary: h)
  case Nil
  then show ?case by simp
next
  case (Cons col cs)
  show ?case
  proof (cases "\<exists>t s ds. deref h df = Some (Table t) \<and> getitem t col = Inr s
                    \<and> deref h l = Some (DictList ds)")
    case True
    then obtain t s ds where
      *: "deref h df = Some (Table t)" "getitem t col = Inr s" "deref h l = Some (DictList ds)"
      by blast
    let ?h = "h[l := DictList (ds @ [\<lparr>categorical_variable = col,
                number_of_possible_values = int (length (unique s)), cat_values = unique s\<rparr>])]"
    from Cons.prems * have "cat_var_loop_heap ?h df cs l = (e, h')" by (simp add: Let_def)
    from Cons.IH [OF this] show ?thesis by simp
  next
    case False
    with Cons.prems have "h' = h"
      by (auto simp: Let_def split: option.splits obj.splits sum.splits)
    then show ?thesis by simp
  qed
qed

text \<open>The loop on the heap computes what the loop on values computes.\<close>

lemma cat_var_loop_heap_refines:
  assumes "deref h df = Some (Table t)" and "deref h l = Some (DictList acc)" and "df \<noteq> l"
  shows "case cat_var_loop t cs acc of
           Inl e \<Rightarrow> fst (cat_var_loop_heap h df cs l) = Some e
         | Inr rows \<Rightarrow> cat_var_loop_heap h df cs l = (None, h[l := DictList rows])"
  using assms
proof (induction cs arbitrary: h acc)
  case Nil
  then have "h ! l = DictList acc" by (simp add: deref_def split: if_splits)
  then have "h[l := DictList acc] = h" using list_update_id [of h l] by simp
  then show ?case by simp
next
  case (Cons col cs)
  show ?case
  proof (cases "getitem t col")
    case (Inl e)
    with Cons.prems show ?thesis by simp
  next
    case (Inr s)
    let ?d = "\<lparr>categorical_variable = col,
                number_of_possible_values = int (length (unique s)), cat_values = unique s\<rparr>"
    let ?h = "h[l := DictList (acc @ [?d])]"
    from Cons.prems have
      "deref ?h df = Some (Table t)" "deref ?h l = Some (DictList (acc @ [?d]))"
      by (auto simp: deref_def split: if_splits)
    note ih = Cons.IH [OF this Cons.prems(3)]
    have step: "cat_var_loop_heap h df (col # cs) l = cat_var_loop_heap ?h df cs l"
      using Cons.prems Inr by (simp add: Let_def)
    have pure: "cat_var_loop t (col # cs) acc = cat_var_loop t cs (acc @ [?d])"
      using Inr by (simp add: Let_def)
    show ?thesis unfolding step pure using ih by (simp split: sum.splits)
  qed
qed

lemma cat_var_loop_heap_preserves:
  assumes "cat_var_loop_heap (h @ [ob]) df cs (length h) = (e, h')"
  shows "take (length h) h' = h"
proof (rule nth_equalityI)
  from cat_var_loop_heap_frame [OF assms] have
    len: "length h' = Suc (length h)" and
    same: "\<And>a. a \<noteq> length h \<Longrightarrow> h' ! a = (h @ [ob]) ! a"
    by auto
  show "length (take (length h) h') = length h" using len by simp
  fix i assume "i < length (take (length h) h')"
  with len have i: "i < length h" by simp
  with same [of i] show "take (length h) h' ! i = h ! i" by (simp add: nth_append)
qed

lemma cat_var_heap_preserves:
  assumes "cat_var_heap nargsort h df cols = (res, h')"
  shows "take (length h) h' = h"
proof (cases "deref (h @ [DictList []]) cols")
  case None
  with assms show ?thesis by (auto simp: cat_var_heap_def alloc_def)
next
  case (Some ob)
  show ?thesis
  proof (cases ob)
    case (StrList cs)
    obtain e h2 where l: "cat_var_loop_heap (h @ [DictList []]) df cs (length h) = (e, h2)"
      by (cases "cat_var_loop_heap (h @ [DictList []]) df cs (length h)")
    from cat_var_loop_heap_preserves [OF l] have p: "take (length h) h2 = h" .
    from cat_var_loop_heap_frame [OF l] have len: "length h \<le> length h2" by simp
    have ext: "take (length h) (h2 @ xs) = h" for xs using p len by simp
    from assms Some StrList l have "h' = h2 \<or> (\<exists>xs. h' = h2 @ xs)"
      by (auto simp: cat_var_heap_def alloc_def Let_def
               split: option.splits obj.splits sum.splits)
    with p ext show ?thesis by auto
  qed (use assms Some in \<open>auto simp: cat_var_heap_def alloc_def\<close>)
qed

lemma cat_var_heap_fresh:
  assumes "cat_var_heap nargsort h df cols = (Inr a, h')"
  shows "length h \<le> a \<and> a < length h'"
proof -
  from assms obtain cs where c: "deref (h @ [DictList []]) cols = Some (StrList cs)"
    by (auto simp: cat_var_heap_def alloc_def split: option.splits obj.splits)
  obtain e h2 where l: "cat_var_loop_heap (h @ [DictList []]) df cs (length h) = (e, h2)"
    by (cases "cat_var_loop_heap (h @ [DictList []]) df cs (length h)")
  from cat_var_loop_heap_frame [OF l] have len: "length h2 = Suc (length h)" by simp
  from assms c l have "a = Suc (Suc (length h2)) \<and> length h' = Suc (Suc (Suc (length h2)))"
    by (auto simp: cat_var_heap_def alloc_def Let_def
             split: option.splits obj.splits sum.splits)
  with len show ?thesis by simp
qed

text \<open>
  The call on the heap returns what \<open>cat_var\<close> computes from the table and the list of
  names that the heap holds at the two addresses.
\<close>

lemma cat_var_heap_refines:
  assumes "deref h df = Some (Table t)" and "deref h cols = Some (StrList cs)"
    and "cat_var_heap nargsort h df cols = (res, h')"
  shows "outcome h' res = cat_var nargsort t cs"
proof -
  let ?h1 = "h @ [DictList []]"
  from assms(1,2) have
    d: "deref ?h1 df = Some (Table t)" and c: "deref ?h1 cols = Some (StrList cs)" and
    l: "deref ?h1 (length h) = Some (DictList [])" and ne: "df \<noteq> length h"
    by (auto simp: deref_def nth_append split: if_splits)
  note r = cat_var_loop_heap_refines [OF d l ne, of cs]
  show ?thesis
  proof (cases "cat_var_loop t cs []")
    case (Inl e)
    with r have "fst (cat_var_loop_heap ?h1 df cs (length h)) = Some e" by simp
    then obtain h2 where "cat_var_loop_heap ?h1 df cs (length h) = (Some e, h2)"
      by (cases "cat_var_loop_heap ?h1 df cs (length h)") auto
    with assms(3) c Inl show ?thesis
      by (auto simp: cat_var_heap_def alloc_def outcome_def cat_var_def)
  next
    case (Inr rows)
    let ?h2 = "?h1[length h := DictList rows]"
    from r Inr have lp: "cat_var_loop_heap ?h1 df cs (length h) = (None, ?h2)" by simp
    have dl: "deref ?h2 (length h) = Some (DictList rows)" by (simp add: deref_def)
    show ?thesis
    proof (cases "sort_values nargsort (DataFrame rows)")
      case (Inl e)
      with assms(3) c lp dl Inr show ?thesis
        by (auto simp: cat_var_heap_def alloc_def outcome_def cat_var_def)
    next
      case (Inr sorted_df)
      with assms(3) c lp dl \<open>cat_var_loop t cs [] = Inr rows\<close> show ?thesis
        by (auto simp: cat_var_heap_def alloc_def outcome_def cat_var_def deref_def nth_append)
    qed
  qed
qed

lemma cat_var_call_refines:
  assumes "deref h df = Some (Table t)" and "deref h cols = Some (StrList cs)"
  shows "cat_var_call nargsort h df cols = cat_var nargsort t cs"
proof -
  obtain res h' where c: "cat_var_heap nargsort h df cols = (res, h')"
    by (cases "cat_var_heap nargsort h df cols")
  from cat_var_heap_refines [OF assms c] c show ?thesis by (simp add: cat_var_call_def)
qed

text \<open>The sample call, evaluated.\<close>

lemma sample_lookup:
  "mushrooms_sample ''odor'' = Some ''nfny''"
  "mushrooms_sample ''bruises'' = Some ''tf''"
  "mushrooms_sample ''veil'' = None"
  by (simp_all add: mushrooms_sample_def)

lemma sample_unique: "unique ''nfny'' = ''nfy''" "unique ''tf'' = ''tf''"
  by (simp_all add: unique_def)

lemma sample_sort:
  "sort_values nargsort_stable
     [(0, \<lparr>categorical_variable = ''bruises'', number_of_possible_values = 2,
           cat_values = ''tf''\<rparr>),
      (Suc 0, \<lparr>categorical_variable = ''odor'', number_of_possible_values = 3,
               cat_values = ''nfy''\<rparr>)]
   = Inr [(Suc 0, \<lparr>categorical_variable = ''odor'', number_of_possible_values = 3,
                   cat_values = ''nfy''\<rparr>),
          (0, \<lparr>categorical_variable = ''bruises'', number_of_possible_values = 2,
               cat_values = ''tf''\<rparr>)]"
  by code_simp

lemma sample_call:
  "cat_var_heap nargsort_stable sample_heap 1 0 = (Inr 6, sample_heap_after)"
  by (simp add: cat_var_heap_def alloc_def deref_def sample_heap_def sample_heap_after_def
        getitem_def sample_lookup sample_unique DataFrame_def sample_sort reset_index_def
        sample_summary_def upt_rec Let_def)

lemma sample_deref:
  "deref sample_heap 1 = Some (Table mushrooms_sample)"
  "deref sample_heap 0 = Some (StrList [''bruises'', ''odor''])"
  "deref sample_heap_after 1 = Some (Table mushrooms_sample)"
  "deref sample_heap_after 0 = Some (StrList [''bruises'', ''odor''])"
  by (simp_all add: deref_def sample_heap_def sample_heap_after_def)

section \<open>No side effects\<close>

text \<open>
  Claim C6: \<open>cat_var\<close> has no side effects. Whatever the heap, the arguments and the
  outcome of a call, every object that was in the heap before the call, the table and
  the list of column names among them, is in it unchanged after the call; and a
  returned frame is fresh: its address was not in use before the call.
\<close>

theorem cat_var_heap_frame:
  assumes "cat_var_heap nargsort h df cols = (res, h')"
  shows "take (length h) h' = h
         \<and> (\<forall>a. a < length h \<longrightarrow> deref h' a = deref h a)
         \<and> (\<forall>a. res = Inr a \<longrightarrow> length h \<le> a \<and> a < length h')"
proof -
  from cat_var_heap_preserves [OF assms] have p: "take (length h) h' = h" .
  have "deref h' a = deref h a" if "a < length h" for a
  proof -
    from p have "length h \<le> length h'"
      by (metis length_take min.cobounded1)
    moreover from that have "take (length h) h' ! a = h' ! a" by simp
    ultimately show ?thesis using that p by (simp add: deref_def)
  qed
  moreover have "length h \<le> a \<and> a < length h'" if "res = Inr a" for a
    using cat_var_heap_fresh [of nargsort h df cols a h'] assms that by simp
  ultimately show ?thesis using p by blast
qed

theorem cat_var_heap_frame_witness:
  "cat_var_heap nargsort_stable sample_heap 1 0 = (Inr 6, sample_heap_after)
   \<and> take (length sample_heap) sample_heap_after = sample_heap
   \<and> (1::nat) < length sample_heap
   \<and> deref sample_heap_after 1 = deref sample_heap 1
   \<and> length sample_heap \<le> 6 \<and> 6 < length sample_heap_after"
proof -
  note f = cat_var_heap_frame [OF sample_call]
  have h: "(1::nat) < length sample_heap" by (simp add: sample_heap_def)
  from f h have "deref sample_heap_after 1 = deref sample_heap 1" by blast
  moreover from f have "length sample_heap \<le> 6 \<and> 6 < length sample_heap_after" by blast
  ultimately show ?thesis using f h sample_call by blast
qed

section \<open>Determinism\<close>

text \<open>
  Claim C7: \<open>cat_var\<close> is deterministic. Two calls whose arguments are the same table
  and the same list of column names return the same, whatever else the two heaps hold
  and wherever the arguments live in them: the result depends on no hidden state. In
  particular a second call, made in the heap that a first call has left, returns what
  the first returned.
\<close>

theorem cat_var_call_deterministic:
  assumes "deref h df = Some (Table t)" and "deref h cols = Some (StrList cs)"
    and "deref g df' = Some (Table t)" and "deref g cols' = Some (StrList cs)"
  shows "cat_var_call nargsort h df cols = cat_var_call nargsort g df' cols'"
  by (simp only: cat_var_call_refines [OF assms(1,2)] cat_var_call_refines [OF assms(3,4)])

theorem cat_var_call_deterministic_witness:
  "deref sample_heap 1 = Some (Table mushrooms_sample)
   \<and> deref sample_heap 0 = Some (StrList [''bruises'', ''odor''])
   \<and> deref sample_heap_after 1 = Some (Table mushrooms_sample)
   \<and> deref sample_heap_after 0 = Some (StrList [''bruises'', ''odor''])
   \<and> snd (cat_var_heap nargsort_stable sample_heap 1 0) = sample_heap_after
   \<and> cat_var_call nargsort_stable sample_heap 1 0
       = cat_var_call nargsort_stable sample_heap_after 1 0"
  using cat_var_call_deterministic [OF sample_deref, of nargsort_stable] sample_deref sample_call
  by simp

section \<open>The ordinal encoding\<close>

text \<open>
  Claim C8: \<open>ordinal_encoding\<close> maps each lowercase letter \<^verbatim>\<open>a\<close> to \<^verbatim>\<open>z\<close> to its position
  in the alphabet, 1 to 26, and the missing marker \<^verbatim>\<open>?\<close> to the sentinel 27. (The claim
  promises nothing on any other character.)
\<close>

theorem ordinal_encoding_letters:
  "(\<forall>i<26. ordinal_encoding [of_char (''abcdefghijklmnopqrstuvwxyz'' ! i)] = Inr (int i + 1))
   \<and> ordinal_encoding [of_char CHR ''?''] = Inr 27"
proof -
  have "list_all
          (\<lambda>i. ordinal_encoding [of_char (''abcdefghijklmnopqrstuvwxyz'' ! i)] = Inr (int i + 1))
          [0..<26]"
    by code_simp
  then have "\<forall>i<26. ordinal_encoding [of_char (''abcdefghijklmnopqrstuvwxyz'' ! i)]
                      = Inr (int i + 1)"
    by (simp add: list_all_iff)
  moreover have "ordinal_encoding [of_char CHR ''?''] = Inr 27"
    by (simp add: ordinal_encoding_def)
  ultimately show ?thesis by blast
qed

theorem ordinal_encoding_letters_witness:
  "(2::nat) < 26 \<and> ''abcdefghijklmnopqrstuvwxyz'' ! 2 = CHR ''c''
   \<and> ordinal_encoding [of_char CHR ''c''] = Inr 3"
  using ordinal_encoding_letters [THEN conjunct1, rule_format, of 2] by simp

text \<open>
  Claim C10: \<open>ordinal_encoding\<close> is total on single characters and its sentinel is not
  unique. For every character other than \<^verbatim>\<open>?\<close> it returns the code point less 96 and
  never fails, so a character outside \<^verbatim>\<open>a\<close> to \<^verbatim>\<open>z\<close> yields a value outside 1 to 27
  without any error: \<^verbatim>\<open>A\<close> yields -31 and the backquote yields 0. The character \<^verbatim>\<open>{\<close>,
  which is not \<^verbatim>\<open>?\<close>, yields the sentinel 27 as \<^verbatim>\<open>?\<close> does.
\<close>

theorem ordinal_encoding_total_sentinel_shared:
  "(\<forall>c. c \<noteq> of_char CHR ''?'' \<longrightarrow> ordinal_encoding [c] = Inr (int c - 96))
   \<and> (\<forall>c. \<exists>n. ordinal_encoding [c] = Inr n)
   \<and> ordinal_encoding [of_char CHR ''A''] = Inr (- 31)
   \<and> ordinal_encoding [of_char (CHR 0x60)] = Inr 0
   \<and> (of_char CHR ''{'' :: nat) \<noteq> of_char CHR ''?''
   \<and> ordinal_encoding [of_char CHR ''{''] = Inr 27
   \<and> ordinal_encoding [of_char CHR ''{''] = ordinal_encoding [of_char CHR ''?'']"
  by (simp add: ordinal_encoding_def py_ord_def)

theorem ordinal_encoding_total_sentinel_shared_witness:
  "(of_char CHR ''A'' :: nat) \<noteq> of_char CHR ''?''
   \<and> ordinal_encoding [of_char CHR ''A''] = Inr (int (of_char CHR ''A'') - 96)"
  using ordinal_encoding_total_sentinel_shared [THEN conjunct1, rule_format, of "of_char CHR ''A''"]
  by simp

end
